theory Spec2Isabelle
  imports Main
begin

section \<open>The music namespace of gtr-cof.ts\<close>

text \<open>
  The TypeScript source keeps its music theory in \<^verbatim>\<open>namespace music\<close>: two fixed
  catalogs (\<^verbatim>\<open>notes\<close>, \<^verbatim>\<open>modes\<close>), two fixed tables (\<^verbatim>\<open>scaleTones\<close>,
  \<^verbatim>\<open>romanNumeral\<close>) and the functions \<^verbatim>\<open>fifths\<close>, \<^verbatim>\<open>scale\<close>, \<^verbatim>\<open>appendTriad\<close>,
  \<^verbatim>\<open>getChordType\<close> and \<^verbatim>\<open>interval\<close>. The spec calls them circleOfFifths, buildScale,
  annotateChord and classify.

  A JavaScript \<^verbatim>\<open>number\<close> that the code only uses as an integer is an \<open>int\<close>; where
  arithmetic can yield \<^verbatim>\<open>NaN\<close> the value is an \<open>int option\<close> with \<open>None\<close> for
  \<^verbatim>\<open>NaN\<close>. An array read out of range yields \<^verbatim>\<open>undefined\<close>, here \<open>None\<close>, and a
  property read on \<^verbatim>\<open>undefined\<close> throws a TypeError, here \<open>Inl TypeError\<close>.
\<close>

subsection \<open>Data\<close>

record Mode =
  name :: string
  index :: int

record Note =
  name :: string
  index :: int

datatype ChordType = Major | Minor | Diminished

type_synonym Triad = "Note \<times> Note \<times> Note"

record ScaleNote = Note +
  degree :: nat
  degreeName :: string
  triad :: Triad
  chordType :: ChordType
  chordNote :: "nat option"

datatype error = TypeError

text \<open>\<^verbatim>\<open>music.notes\<close> (the word \<^verbatim>\<open>notes\<close> alone is reserved in Isabelle).\<close>

definition music_notes :: "Note list" where
  "music_notes =
    [\<lparr>name = ''C'', index = 0\<rparr>,
     \<lparr>name = ''C#'', index = 1\<rparr>,
     \<lparr>name = ''D'', index = 2\<rparr>,
     \<lparr>name = ''D#'', index = 3\<rparr>,
     \<lparr>name = ''E'', index = 4\<rparr>,
     \<lparr>name = ''F'', index = 5\<rparr>,
     \<lparr>name = ''F#'', index = 6\<rparr>,
     \<lparr>name = ''G'', index = 7\<rparr>,
     \<lparr>name = ''G#'', index = 8\<rparr>,
     \<lparr>name = ''A'', index = 9\<rparr>,
     \<lparr>name = ''A#'', index = 10\<rparr>,
     \<lparr>name = ''B'', index = 11\<rparr>]"

definition modes :: "Mode list" where
  "modes =
    [\<lparr>Mode.name = ''Lydian'', Mode.index = 3\<rparr>,
     \<lparr>Mode.name = ''Major / Ionian'', Mode.index = 0\<rparr>,
     \<lparr>Mode.name = ''Mixolydian'', Mode.index = 4\<rparr>,
     \<lparr>Mode.name = ''Dorian'', Mode.index = 1\<rparr>,
     \<lparr>Mode.name = ''N Minor / Aolian'', Mode.index = 5\<rparr>,
     \<lparr>Mode.name = ''Phrygian'', Mode.index = 2\<rparr>,
     \<lparr>Mode.name = ''Locrian'', Mode.index = 6\<rparr>]"

definition scaleTones :: "int list" where
  "scaleTones = [2, 2, 1, 2, 2, 2, 1]"

definition romanNumeral :: "string list" where
  "romanNumeral = [''i'', ''ii'', ''iii'', ''iv'', ''v'', ''vi'', ''vii'']"

subsection \<open>JavaScript primitives\<close>

text \<open>\<^verbatim>\<open>xs[i]\<close>: the element, or \<^verbatim>\<open>undefined\<close> when \<open>i\<close> is not an index of \<open>xs\<close>.\<close>

definition at :: "'a list \<Rightarrow> int \<Rightarrow> 'a option" where
  "at xs i = (if 0 \<le> i \<and> i < int (length xs) then Some (xs ! nat i) else None)"

text \<open>\<^verbatim>\<open>a % b\<close> on integers: the remainder takes the sign of the dividend.\<close>

definition rem :: "int \<Rightarrow> int \<Rightarrow> int" where
  "rem a b = sgn a * (\<bar>a\<bar> mod \<bar>b\<bar>)"

subsection \<open>fifths\<close>

text \<open>
  \<^verbatim>\<open>for (let i = 0; i < 12; i++) { items.push(current); current = notes[(current.index + 7) % 12]; }\<close>
  The loop state is \<open>i\<close>, \<open>current\<close> and \<open>items\<close>; \<open>current\<close> is \<open>None\<close> when the
  array read gave \<^verbatim>\<open>undefined\<close>, and then \<^verbatim>\<open>current.index\<close> throws in the same
  iteration, so \<open>items\<close> only ever holds notes when the loop goes on.
\<close>

function fifths_loop :: "nat \<Rightarrow> Note option \<Rightarrow> Note list \<Rightarrow> error + Note list" where
  "fifths_loop i current items =
     (if i < 12 then
        (case current of
           None \<Rightarrow> Inl TypeError
         | Some c \<Rightarrow> fifths_loop (Suc i) (at music_notes (rem (index c + 7) 12)) (items @ [c]))
      else Inr items)"
  by pat_completeness auto
termination
  by (relation "measure (\<lambda>(i, current, items). 12 - i)") auto

declare fifths_loop.simps [simp del]

definition fifths :: "error + Note list" where
  "fifths = fifths_loop 0 (at music_notes 0) []"

subsection \<open>interval and getChordType\<close>

definition interval :: "'a Note_scheme \<Rightarrow> 'b Note_scheme \<Rightarrow> int" where
  "interval a b = (if index a \<le> index b then index b - index a else (index b + 12) - index a)"

definition getChordType :: "Triad \<Rightarrow> ChordType" where
  "getChordType t =
     (case t of (t0, t1, t2) \<Rightarrow>
        if interval t0 t2 = 6 then Diminished
        else if interval t0 t1 = 3 then Minor
        else Major)"

subsection \<open>scale\<close>

text \<open>
  The first loop of \<^verbatim>\<open>scale\<close>:
  \<^verbatim>\<open>notesOfScale.push(notes[noteIndex]); noteIndex = (noteIndex + scaleTones[(i + mode.index) % 7]) % 12\<close>.
  A read of \<^verbatim>\<open>scaleTones\<close> out of range gives \<^verbatim>\<open>undefined\<close>, the sum is then
  \<^verbatim>\<open>NaN\<close> and stays so; \<^verbatim>\<open>notes[NaN]\<close> is \<^verbatim>\<open>undefined\<close>.
\<close>

definition nextNoteIndex :: "Mode \<Rightarrow> nat \<Rightarrow> int option \<Rightarrow> int option" where
  "nextNoteIndex mode i noteIndex =
     (case noteIndex of
        None \<Rightarrow> None
      | Some n \<Rightarrow>
          (case at scaleTones (rem (int i + Mode.index mode) 7) of
             None \<Rightarrow> None
           | Some s \<Rightarrow> Some (rem (n + s) 12)))"

function notesOfScale_loop :: "Mode \<Rightarrow> nat \<Rightarrow> int option \<Rightarrow> Note option list \<Rightarrow> Note option list" where
  "notesOfScale_loop mode i noteIndex notesOfScale =
     (if i < 7 then
        notesOfScale_loop mode (Suc i) (nextNoteIndex mode i noteIndex)
          (notesOfScale @ [case noteIndex of None \<Rightarrow> None | Some n \<Rightarrow> at music_notes n])
      else notesOfScale)"
  by pat_completeness auto
termination
  by (relation "measure (\<lambda>(mode, i, noteIndex, notesOfScale). 7 - i)") auto

declare notesOfScale_loop.simps [simp del]

text \<open>
  The second loop. \<^verbatim>\<open>note.name\<close> throws when \<^verbatim>\<open>notesOfScale[i]\<close> is
  \<^verbatim>\<open>undefined\<close>. Every entry of \<^verbatim>\<open>notesOfScale\<close> is the \<^verbatim>\<open>note\<close> of its own
  iteration, so the source throws as soon as one entry is \<^verbatim>\<open>undefined\<close>, whatever
  \<^verbatim>\<open>getChordType\<close> reads of the triad; the model throws at the first iteration
  whose note or triad has such an entry, which keeps \<open>Triad\<close> a triple of notes.
\<close>

definition entry :: "Note option list \<Rightarrow> nat \<Rightarrow> Note option" where
  "entry notesOfScale i = (case at notesOfScale (int i) of None \<Rightarrow> None | Some x \<Rightarrow> x)"

function scale_loop :: "Note option list \<Rightarrow> nat \<Rightarrow> ScaleNote list \<Rightarrow> error + ScaleNote list" where
  "scale_loop notesOfScale i scale =
     (if i < 7 then
        (case (entry notesOfScale i, entry notesOfScale ((i + 2) mod 7), entry notesOfScale ((i + 4) mod 7)) of
           (Some note, Some n2, Some n4) \<Rightarrow>
             scale_loop notesOfScale (Suc i)
               (scale @
                 [\<lparr>name = name note, index = index note, degree = i,
                   degreeName = romanNumeral ! i, triad = (note, n2, n4),
                   chordType = getChordType (note, n2, n4), chordNote = None\<rparr>])
         | _ \<Rightarrow> Inl TypeError)
      else Inr scale)"
  by pat_completeness auto
termination
  by (relation "measure (\<lambda>(notesOfScale, i, scale). 7 - i)") auto

declare scale_loop.simps [simp del]

definition notesOfScale :: "Note \<Rightarrow> Mode \<Rightarrow> Note option list" where
  "notesOfScale tonic mode = notesOfScale_loop mode 0 (Some (index tonic)) []"

definition scale :: "Note \<Rightarrow> Mode \<Rightarrow> error + ScaleNote list" where
  "scale tonic mode = scale_loop (notesOfScale tonic mode) 0 []"

subsection \<open>The store\<close>

text \<open>
  \<^verbatim>\<open>appendTriad\<close> writes the field \<^verbatim>\<open>chordNote\<close> of the objects its argument array
  refers to, so arrays and \<^verbatim>\<open>ScaleNote\<close> objects live in a store and are passed by
  reference. References below \<open>next_ref\<close> are allocated. The notes of the catalog and
  the triads are never written by the source and stay values.
\<close>

type_synonym ref = nat

record heap =
  arrays :: "ref \<Rightarrow> ref list"
  objects :: "ref \<Rightarrow> ScaleNote"
  next_ref :: ref

text \<open>
  What \<^verbatim>\<open>scale\<close> leaves in the store: one new array (\<^verbatim>\<open>let scale = []\<close>) and one
  new object per \<^verbatim>\<open>scale.push({...})\<close>, in that order.
\<close>

fun push_all :: "heap \<Rightarrow> ref \<Rightarrow> ScaleNote list \<Rightarrow> heap" where
  "push_all h a [] = h"
| "push_all h a (v # vs) =
     push_all
       (h\<lparr>arrays := (arrays h)(a := arrays h a @ [next_ref h]),
          objects := (objects h)(next_ref h := v),
          next_ref := Suc (next_ref h)\<rparr>) a vs"

definition new_scale :: "heap \<Rightarrow> ScaleNote list \<Rightarrow> heap \<times> ref" where
  "new_scale h vs =
     (let a = next_ref h
      in (push_all (h\<lparr>arrays := (arrays h)(a := []), next_ref := Suc a\<rparr>) a vs, a))"

text \<open>The notes an array reference stands for, as a reader of the array sees them.\<close>

definition read_scale :: "heap \<Rightarrow> ref \<Rightarrow> ScaleNote list" where
  "read_scale h a = map (objects h) (arrays h a)"

subsection \<open>appendTriad\<close>

text \<open>\<^verbatim>\<open>triad[i]\<close> for the \<open>i < 3\<close> of the inner loop.\<close>

fun slot :: "Triad \<Rightarrow> nat \<Rightarrow> Note" where
  "slot (t0, t1, t2) i = (if i = 0 then t0 else if i = 1 then t1 else t2)"

text \<open>
  The inner loop, on the object \<^verbatim>\<open>note\<close> refers to:
  \<^verbatim>\<open>for (let i = 0; i < 3; i++) { if (note.name === triad[i].name) { note.chordNote = i; } }\<close>
\<close>

function chordNote_loop :: "Triad \<Rightarrow> nat \<Rightarrow> ScaleNote \<Rightarrow> ScaleNote" where
  "chordNote_loop tr i note =
     (if i < 3 then
        chordNote_loop tr (Suc i)
          (if name note = name (slot tr i) then note\<lparr>chordNote := Some i\<rparr> else note)
      else note)"
  by pat_completeness auto
termination
  by (relation "measure (\<lambda>(tr, i, note). 3 - i)") auto

declare chordNote_loop.simps [simp del]

text \<open>
  The outer loop \<^verbatim>\<open>for (let note of scale)\<close> over the references in the array \<open>a\<close>
  (the parameter \<^verbatim>\<open>scale\<close>), with the triad \<open>tr\<close>; the array reference is returned.
\<close>

fun appendTriad_loop :: "heap \<Rightarrow> ref list \<Rightarrow> Triad \<Rightarrow> heap" where
  "appendTriad_loop h [] tr = h"
| "appendTriad_loop h (r # rs) tr =
     appendTriad_loop (h\<lparr>objects := (objects h)(r := chordNote_loop tr 0 (objects h r))\<rparr>) rs tr"

definition appendTriad :: "heap \<Rightarrow> ref \<Rightarrow> Triad \<Rightarrow> heap \<times> ref" where
  "appendTriad h a tr = (appendTriad_loop h (arrays h a) tr, a)"

section \<open>The state namespace\<close>

text \<open>
  \<^verbatim>\<open>updateListeners\<close> up to the \<^verbatim>\<open>stateChange\<close> it hands to every listener: the
  tonic, the mode and the reference of the scale. \<^verbatim>\<open>if (triad)\<close> holds exactly when
  a triad was passed.
\<close>

record state =
  currentTonic :: Note
  currentMode :: Mode

type_synonym StateChange = "Note \<times> Mode \<times> ref"

definition updateListeners :: "state \<Rightarrow> heap \<Rightarrow> Triad option \<Rightarrow> error + heap \<times> StateChange" where
  "updateListeners st h tr =
     (case scale (currentTonic st) (currentMode st) of
        Inl e \<Rightarrow> Inl e
      | Inr vs \<Rightarrow>
          (let (h1, scale1) = new_scale h vs;
               (h2, scale2) = (case tr of None \<Rightarrow> (h1, scale1) | Some t \<Rightarrow> appendTriad h1 scale1 t)
           in Inr (h2, (currentTonic st, currentMode st, scale2))))"

section \<open>Auxiliary definitions for the statements\<close>

text \<open>
  Following the spec's words (section 4.4): the semitone distance from \<open>a\<close> to \<open>b\<close> is
  \<^verbatim>\<open>(b.index >= a.index) ? b.index - a.index : b.index + 12 - a.index\<close>, the
  ascending-only circular distance. It is compared below with \<open>interval\<close>, which is
  translated from the source.
\<close>

definition semitone_distance :: "Note \<Rightarrow> Note \<Rightarrow> int" where
  "semitone_distance a b = (if index b \<ge> index a then index b - index a else index b + 12 - index a)"

text \<open>
  The object the second loop of \<^verbatim>\<open>scale\<close> pushes at iteration \<open>i\<close> when all raw notes
  \<open>ps\<close> are defined.
\<close>

definition degree_of :: "Note list \<Rightarrow> nat \<Rightarrow> ScaleNote" where
  "degree_of ps i =
     \<lparr>name = name (ps ! i), index = index (ps ! i), degree = i,
      degreeName = romanNumeral ! i,
      triad = (ps ! i, ps ! ((i + 2) mod 7), ps ! ((i + 4) mod 7)),
      chordType = getChordType (ps ! i, ps ! ((i + 2) mod 7), ps ! ((i + 4) mod 7)),
      chordNote = None\<rparr>"

text \<open>
  A store in which nothing is allocated yet; what the addresses at and above \<open>next_ref\<close>
  hold is never read.
\<close>

definition heap0 :: heap where
  "heap0 =
     \<lparr>arrays = (\<lambda>r. []),
      objects = (\<lambda>r. \<lparr>name = [], index = 0, degree = 0, degreeName = [],
                          triad = (\<lparr>name = [], index = 0\<rparr>, \<lparr>name = [], index = 0\<rparr>, \<lparr>name = [], index = 0\<rparr>),
                          chordType = Major, chordNote = None\<rparr>),
      next_ref = 0\<rparr>"

text \<open>
  The store after \<^verbatim>\<open>scale\<close> has built the scale of C in the mode Major / Ionian in
  \<open>heap0\<close>: the array is at reference 0 and its seven objects at 1 to 7.
\<close>

definition c_major_heap :: heap where
  "c_major_heap = fst (new_scale heap0 (projr (scale (music_notes ! 0) (modes ! 1))))"

section \<open>Evaluation lemmas\<close>

lemmas js_defs = at_def rem_def entry_def nextNoteIndex_def

lemmas table_defs = music_notes_def modes_def scaleTones_def romanNumeral_def

lemma those_map_Some: "those xs = Some ys \<Longrightarrow> xs = map Some ys"
  by (induction xs arbitrary: ys) (auto split: option.splits)

lemma list7:
  assumes "length ps = 7"
  obtains p0 p1 p2 p3 p4 p5 p6 where "ps = [p0, p1, p2, p3, p4, p5, p6]"
  using assms by (auto simp: eval_nat_numeral length_Suc_conv)

lemma upt7: "[0..<7] = [0, 1, 2, 3, 4, 5, 6]"
  by (simp add: upt_rec)

lemma fifths_value:
  "fifths = Inr (map (\<lambda>k. music_notes ! k) [0, 7, 2, 9, 4, 11, 6, 1, 8, 3, 10, 5])"
  by (simp add: fifths_def fifths_loop.simps at_def rem_def music_notes_def)

subsection \<open>The loops of scale on defined notes and on the catalog\<close>

lemma scale_loop_defined:
  assumes "length ps = 7"
  shows "scale_loop (map Some ps) 0 [] = Inr (map (degree_of ps) [0..<7])"
proof -
  from assms obtain p0 p1 p2 p3 p4 p5 p6 where ps: "ps = [p0, p1, p2, p3, p4, p5, p6]"
    by (rule list7)
  show ?thesis
    unfolding ps upt7
    by (simp add: scale_loop.simps entry_def at_def degree_of_def romanNumeral_def)
qed

lemma notesOfScale_catalog:
  assumes "tonic \<in> set music_notes" "mode \<in> set modes"
  shows "\<exists>ps. notesOfScale tonic mode = map Some ps
     \<and> length ps = 7 \<and> ps ! 0 = tonic \<and> set ps \<subseteq> set music_notes
     \<and> distinct (map index ps) \<and> distinct (map name ps)
     \<and> list_all (\<lambda>i. index (ps ! Suc i) =
           (index (ps ! i) + scaleTones ! nat ((int i + Mode.index mode) mod 7)) mod 12)
          [0, 1, 2, 3, 4, 5]
     \<and> sum_list (map2 interval ps (rotate1 ps)) = 12"
proof -
  have "case those (notesOfScale tonic mode) of
          None \<Rightarrow> False
        | Some ps \<Rightarrow>
            length ps = 7 \<and> ps ! 0 = tonic \<and> set ps \<subseteq> set music_notes
            \<and> distinct (map index ps) \<and> distinct (map name ps)
            \<and> list_all (\<lambda>i. index (ps ! Suc i) =
                  (index (ps ! i) + scaleTones ! nat ((int i + Mode.index mode) mod 7)) mod 12)
                 [0, 1, 2, 3, 4, 5]
            \<and> sum_list (map2 interval ps (rotate1 ps)) = 12"
    using assms unfolding music_notes_def modes_def
    apply simp
    apply (elim disjE)
    apply (simp_all add: notesOfScale_def notesOfScale_loop.simps js_defs table_defs interval_def)
    done
  then show ?thesis
    by (auto split: option.splits dest: those_map_Some)
qed

lemma scale_catalog:
  assumes "tonic \<in> set music_notes" "mode \<in> set modes"
  obtains ps where "notesOfScale tonic mode = map Some ps" "length ps = 7" "ps ! 0 = tonic"
    "set ps \<subseteq> set music_notes" "distinct (map index ps)" "distinct (map name ps)"
    "\<forall>i<6. index (ps ! Suc i) =
           (index (ps ! i) + scaleTones ! nat ((int i + Mode.index mode) mod 7)) mod 12"
    "sum_list (map2 interval ps (rotate1 ps)) = 12"
    "scale tonic mode = Inr (map (degree_of ps) [0..<7])"
proof -
  from notesOfScale_catalog [OF assms] obtain ps where ps:
    "notesOfScale tonic mode = map Some ps" "length ps = 7" "ps ! 0 = tonic"
    "set ps \<subseteq> set music_notes" "distinct (map index ps)" "distinct (map name ps)"
    "list_all (\<lambda>i. index (ps ! Suc i) =
           (index (ps ! i) + scaleTones ! nat ((int i + Mode.index mode) mod 7)) mod 12)
          [0, 1, 2, 3, 4, 5]"
    "sum_list (map2 interval ps (rotate1 ps)) = 12"
    by blast
  have rec: "\<forall>i<6. index (ps ! Suc i) =
           (index (ps ! i) + scaleTones ! nat ((int i + Mode.index mode) mod 7)) mod 12"
  proof (intro allI impI)
    fix i :: nat
    assume "i < 6"
    then have "i \<in> set [0, 1, 2, 3, 4, 5]"
      by (simp add: less_Suc_eq eval_nat_numeral) 
    with ps(7) show "index (ps ! Suc i) =
           (index (ps ! i) + scaleTones ! nat ((int i + Mode.index mode) mod 7)) mod 12"
      unfolding list_all_iff by blast
  qed
  have "scale tonic mode = Inr (map (degree_of ps) [0..<7])"
    by (simp add: scale_def ps(1) scale_loop_defined [OF ps(2)])
  with ps rec show thesis
    using that by blast
qed

lemma degree_of_fields:
  "name (degree_of ps i) = name (ps ! i)" "index (degree_of ps i) = index (ps ! i)"
  "degree (degree_of ps i) = i" "chordNote (degree_of ps i) = None"
  "triad (degree_of ps i) = (ps ! i, ps ! ((i + 2) mod 7), ps ! ((i + 4) mod 7))"
  "Note.truncate (degree_of ps i) = ps ! i"
  by (simp_all add: degree_of_def Note.truncate_def)

lemma map_degree_of:
  assumes "length ps = 7"
  shows "map Note.truncate (map (degree_of ps) [0..<7]) = ps"
    "map index (map (degree_of ps) [0..<7]) = map index ps"
    "map name (map (degree_of ps) [0..<7]) = map name ps"
    "map degree (map (degree_of ps) [0..<7]) = [0..<7]"
    "map2 interval (map (degree_of ps) [0..<7]) (rotate1 (map (degree_of ps) [0..<7]))
       = map2 interval ps (rotate1 ps)"
proof -
  from assms obtain p0 p1 p2 p3 p4 p5 p6 where ps: "ps = [p0, p1, p2, p3, p4, p5, p6]"
    by (rule list7)
  show "map Note.truncate (map (degree_of ps) [0..<7]) = ps"
    "map index (map (degree_of ps) [0..<7]) = map index ps"
    "map name (map (degree_of ps) [0..<7]) = map name ps"
    "map degree (map (degree_of ps) [0..<7]) = [0..<7]"
    "map2 interval (map (degree_of ps) [0..<7]) (rotate1 (map (degree_of ps) [0..<7]))
       = map2 interval ps (rotate1 ps)"
    unfolding ps upt7 by (simp_all add: degree_of_fields interval_def)
qed


subsection \<open>The effect of appendTriad on the store\<close>

lemma chordNote_loop_value:
  "chordNote_loop tr 0 n =
     n\<lparr>chordNote :=
          (if name n = name (slot tr 2) then Some 2
           else if name n = name (slot tr 1) then Some 1
           else if name n = name (slot tr 0) then Some 0
           else chordNote n)\<rparr>"
proof -
  have s3: "chordNote_loop tr (Suc (Suc (Suc 0))) m = m" for m
    by (subst chordNote_loop.simps) simp
  have s2: "chordNote_loop tr (Suc (Suc 0)) m =
      (if name m = name (slot tr 2) then m\<lparr>chordNote := Some 2\<rparr> else m)" for m
    by (subst chordNote_loop.simps) (simp add: s3 numeral_2_eq_2)
  have s1: "chordNote_loop tr (Suc 0) m =
      chordNote_loop tr (Suc (Suc 0)) (if name m = name (slot tr 1) then m\<lparr>chordNote := Some 1\<rparr> else m)" for m
    by (subst chordNote_loop.simps) simp
  have s0: "chordNote_loop tr 0 m =
      chordNote_loop tr (Suc 0) (if name m = name (slot tr 0) then m\<lparr>chordNote := Some 0\<rparr> else m)" for m
    by (subst chordNote_loop.simps) simp
  show ?thesis
    by (simp add: s0 s1 s2)
qed

lemma chordNote_loop_idem:
  "chordNote_loop tr 0 (chordNote_loop tr 0 n) = chordNote_loop tr 0 n"
  by (simp add: chordNote_loop_value)

lemma appendTriad_loop_effect:
  "appendTriad_loop h rs tr =
     h\<lparr>objects := (\<lambda>r. if r \<in> set rs then chordNote_loop tr 0 (objects h r) else objects h r)\<rparr>"
proof (induction rs arbitrary: h)
  case Nil
  show ?case by simp
next
  case (Cons r rs)
  let ?h1 = "h\<lparr>objects := (objects h)(r := chordNote_loop tr 0 (objects h r))\<rparr>"
  have "appendTriad_loop h (r # rs) tr = appendTriad_loop ?h1 rs tr"
    by simp
  also have "\<dots> = ?h1\<lparr>objects := (\<lambda>x. if x \<in> set rs then chordNote_loop tr 0 (objects ?h1 x) else objects ?h1 x)\<rparr>"
    by (rule Cons.IH)
  also have "\<dots> = h\<lparr>objects := (\<lambda>x. if x \<in> set (r # rs) then chordNote_loop tr 0 (objects h x) else objects h x)\<rparr>"
    by (rule heap.equality) (auto simp: fun_eq_iff chordNote_loop_idem)
  finally show ?case .
qed

lemma push_all_read:
  "\<forall>r \<in> set (arrays h a). r < next_ref h \<Longrightarrow>
   read_scale (push_all h a vs) a = read_scale h a @ vs"
proof (induction vs arbitrary: h)
  case Nil
  show ?case by simp
next
  case (Cons v vs)
  let ?h1 = "h\<lparr>arrays := (arrays h)(a := arrays h a @ [next_ref h]),
          objects := (objects h)(next_ref h := v),
          next_ref := Suc (next_ref h)\<rparr>"
  have inv: "\<forall>r \<in> set (arrays ?h1 a). r < next_ref ?h1"
    using Cons.prems by (auto simp: less_Suc_eq)
  have "read_scale ?h1 a = read_scale h a @ [v]"
    using Cons.prems by (auto simp: read_scale_def)
  with Cons.IH [OF inv] show ?case
    by simp
qed

lemma new_scale_read:
  "read_scale (fst (new_scale h vs)) (snd (new_scale h vs)) = vs"
  using push_all_read [of "h\<lparr>arrays := (arrays h)(next_ref h := []), next_ref := Suc (next_ref h)\<rparr>" "next_ref h" vs]
  by (simp add: new_scale_def Let_def read_scale_def)

lemma new_scale_ref: "snd (new_scale h vs) = next_ref h"
  by (simp add: new_scale_def Let_def)

lemma appendTriad_read:
  "read_scale (fst (appendTriad h a tr)) a = map (chordNote_loop tr 0) (read_scale h a)"
  by (simp add: appendTriad_def appendTriad_loop_effect read_scale_def)

lemma c_major_value:
  "scale (music_notes ! 0) (modes ! 1) =
     Inr (map (degree_of (map (\<lambda>k. music_notes ! k) [0, 2, 4, 5, 7, 9, 11])) [0..<7])"
  unfolding upt7
  by (simp add: scale_def notesOfScale_def notesOfScale_loop.simps scale_loop.simps
      js_defs table_defs degree_of_def)

lemma appendTriad_objects:
  "objects (fst (appendTriad h a tr)) r =
     (if r \<in> set (arrays h a) then chordNote_loop tr 0 (objects h r) else objects h r)"
  by (simp add: appendTriad_def appendTriad_loop_effect)

lemma c_major_heap_fields:
  "arrays c_major_heap 0 = [1, 2, 3, 4, 5, 6, 7]"
  "map (\<lambda>r. name (objects c_major_heap r)) [1, 2, 3, 4, 5, 6, 7] = [''C'', ''D'', ''E'', ''F'', ''G'', ''A'', ''B'']"
  "map (\<lambda>r. chordNote (objects c_major_heap r)) [1, 2, 3, 4, 5, 6, 7] = [None, None, None, None, None, None, None]"
  "next_ref c_major_heap = 8"
  unfolding c_major_heap_def c_major_value upt7
  by (simp_all add: new_scale_def heap0_def Let_def degree_of_def music_notes_def)

lemma updateListeners_value:
  assumes "scale tonic mode = Inr vs"
  shows "updateListeners \<lparr>currentTonic = tonic, currentMode = mode\<rparr> h None =
           Inr (fst (new_scale h vs), tonic, mode, next_ref h)"
    and "updateListeners \<lparr>currentTonic = tonic, currentMode = mode\<rparr> h (Some tr) =
           Inr (fst (appendTriad (fst (new_scale h vs)) (next_ref h) tr), tonic, mode, next_ref h)"
  using assms
  by (simp_all add: updateListeners_def case_prod_beta new_scale_ref appendTriad_def)

lemma read_new_scale: "read_scale (fst (new_scale h vs)) (next_ref h) = vs"
  using new_scale_read [of h vs] by (simp add: new_scale_ref)

lemma degree_steps:
  assumes "d < (7::nat)"
  shows "(d + 2) mod 7 < 7" "(d + 4) mod 7 < 7" "(d + 2) mod 7 \<noteq> d" "(d + 4) mod 7 \<noteq> d"
    "(d + 4) mod 7 \<noteq> (d + 2) mod 7"
  using assms by presburger+

lemma annotated_degree:
  assumes len: "length ps = 7" and dist: "distinct (map name ps)" and d: "d < 7" and k: "k < 7"
  shows "chordNote (chordNote_loop (triad (degree_of ps d)) 0 (degree_of ps k)) =
           (if k = (d + 4) mod 7 then Some 2
            else if k = (d + 2) mod 7 then Some 1
            else if k = d then Some 0 else None)"
    and "name (chordNote_loop (triad (degree_of ps d)) 0 (degree_of ps k)) = name (ps ! k)"
proof -
  have inj: "name (ps ! i) = name (ps ! j) \<longleftrightarrow> i = j" if "i < 7" "j < 7" for i j
    using nth_eq_iff_index_eq [OF dist, of i j] that len by simp
  show "chordNote (chordNote_loop (triad (degree_of ps d)) 0 (degree_of ps k)) =
           (if k = (d + 4) mod 7 then Some 2
            else if k = (d + 2) mod 7 then Some 1
            else if k = d then Some 0 else None)"
    using d k degree_steps(1,2) [OF d]
    by (simp add: chordNote_loop_value degree_of_fields inj)
  show "name (chordNote_loop (triad (degree_of ps d)) 0 (degree_of ps k)) = name (ps ! k)"
    by (simp add: chordNote_loop_value degree_of_fields)
qed

lemma role_count:
  assumes "d < (7::nat)"
  shows "length (filter (\<lambda>x. x \<noteq> None)
           (map (\<lambda>k. if k = (d + 4) mod 7 then Some (2::nat)
                      else if k = (d + 2) mod 7 then Some 1
                      else if k = d then Some 0 else None) [0..<7])) = 3"
proof -
  from assms have "d = 0 \<or> d = 1 \<or> d = 2 \<or> d = 3 \<or> d = 4 \<or> d = 5 \<or> d = 6"
    by linarith
  then show ?thesis
    unfolding upt7 by (elim disjE) simp_all
qed

lemma c_major_heap_read:
  "read_scale c_major_heap 0 = map (degree_of (map (\<lambda>k. music_notes ! k) [0, 2, 4, 5, 7, 9, 11])) [0..<7]"
  using read_new_scale [of heap0 "map (degree_of (map (\<lambda>k. music_notes ! k) [0, 2, 4, 5, 7, 9, 11])) [0..<7]"]
  unfolding c_major_heap_def c_major_value by (simp add: heap0_def)

section \<open>getChordType\<close>

text \<open>
  C3. For every triad, \<open>getChordType\<close> (the spec's classify) applies its rules in order,
  the first match winning: the result is Diminished exactly when the ascending circular
  semitone distance from slot 0 to slot 2 is 6; otherwise it is Minor exactly when that
  distance from slot 0 to slot 1 is 3; otherwise it is Major. The distance is the one
  the spec writes out. In particular C, D#, F# is Diminished, C, D#, G is Minor and
  C, E, G is Major.
\<close>

theorem getChordType_first_match:
  "getChordType (t0, t1, t2) =
     (if semitone_distance t0 t2 = 6 then Diminished
      else if semitone_distance t0 t1 = 3 then Minor
      else Major)
   \<and> (getChordType (t0, t1, t2) = Diminished) = (semitone_distance t0 t2 = 6)
   \<and> (getChordType (t0, t1, t2) = Minor) =
       (semitone_distance t0 t2 \<noteq> 6 \<and> semitone_distance t0 t1 = 3)
   \<and> (getChordType (t0, t1, t2) = Major) =
       (semitone_distance t0 t2 \<noteq> 6 \<and> semitone_distance t0 t1 \<noteq> 3)
   \<and> getChordType (music_notes ! 0, music_notes ! 3, music_notes ! 6) = Diminished
   \<and> getChordType (music_notes ! 0, music_notes ! 3, music_notes ! 7) = Minor
   \<and> getChordType (music_notes ! 0, music_notes ! 4, music_notes ! 7) = Major"
proof -
  have d: "interval a b = semitone_distance a b" for a b :: Note
    by (simp add: interval_def semitone_distance_def)
  show ?thesis
    by (simp add: getChordType_def d) (simp add: semitone_distance_def music_notes_def)
qed

section \<open>fifths\<close>

text \<open>
  C4. \<open>fifths\<close> (the spec's circleOfFifths) takes no input and returns 12 notes: the
  first is C, of index 0; the index of every later entry is the index of the entry
  before it plus 7, modulo 12; and the 12 entries are the 12 notes of the catalog, each
  exactly once.
\<close>

theorem fifths_circle:
  "\<exists>items. fifths = Inr items
     \<and> length items = 12
     \<and> items ! 0 = music_notes ! 0 \<and> name (items ! 0) = ''C'' \<and> index (items ! 0) = 0
     \<and> map index (tl items) = map (\<lambda>n. (index n + 7) mod 12) (butlast items)
     \<and> distinct items \<and> set items = set music_notes"
  unfolding fifths_value
  by (simp add: music_notes_def insert_commute)

section \<open>scale\<close>

text \<open>
  C2. \<open>scale\<close> (the spec's buildScale) on the tonic C and the mode Major / Ionian
  returns seven degrees named C, D, E, F, G, A, B in this order, with the degree names
  i to vii and the chord types Major, Minor, Minor, Major, Major, Minor, Diminished.
\<close>

theorem scale_C_major:
  "\<exists>sc. scale (music_notes ! 0) (modes ! 1) = Inr sc
     \<and> name (music_notes ! 0) = ''C'' \<and> Mode.name (modes ! 1) = ''Major / Ionian''
     \<and> map name sc = [''C'', ''D'', ''E'', ''F'', ''G'', ''A'', ''B'']
     \<and> map degreeName sc = [''i'', ''ii'', ''iii'', ''iv'', ''v'', ''vi'', ''vii'']
     \<and> map chordType sc = [Major, Minor, Minor, Major, Major, Minor, Diminished]"
  by (simp add: scale_def notesOfScale_def notesOfScale_loop.simps scale_loop.simps
      js_defs table_defs getChordType_def interval_def)

text \<open>
  C1. For every tonic of the 12-note catalog and every mode of the 7-mode catalog, the
  first loop of \<open>scale\<close> yields 7 defined raw notes: the first is the tonic, and for
  every \<open>i\<close> from 0 to 5 the index of note \<open>i + 1\<close> is the index of note \<open>i\<close> plus
  \<open>scaleTones[(i + mode.index) mod 7]\<close>, modulo 12, with \<open>scaleTones\<close> the pattern
  2, 2, 1, 2, 2, 2, 1. \<open>scale\<close> returns, and the name and index of its seven entries
  are those raw notes.
\<close>

theorem scale_raw_pitches:
  assumes "tonic \<in> set music_notes" "mode \<in> set modes"
  shows "\<exists>ps sc. notesOfScale tonic mode = map Some ps
     \<and> length ps = 7 \<and> ps ! 0 = tonic
     \<and> (\<forall>i<6. index (ps ! Suc i) =
            (index (ps ! i) + scaleTones ! nat ((int i + Mode.index mode) mod 7)) mod 12)
     \<and> scaleTones = [2, 2, 1, 2, 2, 2, 1]
     \<and> scale tonic mode = Inr sc \<and> map Note.truncate sc = ps"
proof -
  from assms obtain ps where ps: "notesOfScale tonic mode = map Some ps" "length ps = 7"
    "ps ! 0 = tonic"
    "\<forall>i<6. index (ps ! Suc i) =
           (index (ps ! i) + scaleTones ! nat ((int i + Mode.index mode) mod 7)) mod 12"
    "scale tonic mode = Inr (map (degree_of ps) [0..<7])"
    by (rule scale_catalog)
  moreover have "map Note.truncate (map (degree_of ps) [0..<7]) = ps"
    by (rule map_degree_of [OF ps(2)])
  moreover have "scaleTones = [2, 2, 1, 2, 2, 2, 1]"
    by (simp add: scaleTones_def)
  ultimately show ?thesis
    by blast
qed

text \<open>The statement of C1 at the tonic A, the mode N Minor / Aolian and \<open>i = 2\<close>.\<close>

theorem scale_raw_pitches_witness:
  "music_notes ! 9 \<in> set music_notes \<and> modes ! 4 \<in> set modes \<and> (2::nat) < 6
   \<and> (\<exists>ps. notesOfScale (music_notes ! 9) (modes ! 4) = map Some ps
        \<and> length ps = 7 \<and> ps ! 0 = music_notes ! 9
        \<and> index (ps ! Suc 2) =
            (index (ps ! 2) + scaleTones ! nat ((int 2 + Mode.index (modes ! 4)) mod 7)) mod 12)"
proof -
  have t: "music_notes ! 9 \<in> set music_notes"
    by (simp add: music_notes_def)
  have m: "modes ! 4 \<in> set modes"
    by (simp add: modes_def)
  from scale_raw_pitches [OF t m] obtain ps where ps:
    "notesOfScale (music_notes ! 9) (modes ! 4) = map Some ps" "length ps = 7"
    "ps ! 0 = music_notes ! 9"
    and step: "\<forall>i<6. index (ps ! Suc i) =
       (index (ps ! i) + scaleTones ! nat ((int i + Mode.index (modes ! 4)) mod 7)) mod 12"
    by blast
  have "(2::nat) < 6"
    by simp
  with step have "index (ps ! Suc 2) =
       (index (ps ! 2) + scaleTones ! nat ((int 2 + Mode.index (modes ! 4)) mod 7)) mod 12"
    by blast
  with ps t m show ?thesis
    by auto
qed

text \<open>
  C5. For every tonic and mode of the catalogs, \<open>scale\<close> returns exactly 7 entries, the
  entry of degree 0 is the tonic, and the semitone intervals from each degree to the
  next, the one from degree 6 back to degree 0 included, sum to 12.
\<close>

theorem scale_seven_degrees:
  assumes "tonic \<in> set music_notes" "mode \<in> set modes"
  shows "\<exists>sc. scale tonic mode = Inr sc
     \<and> length sc = 7
     \<and> Note.truncate (sc ! 0) = tonic \<and> degree (sc ! 0) = 0
     \<and> sum_list (map2 interval sc (rotate1 sc)) = 12"
proof -
  from assms obtain ps where ps: "length ps = 7" "ps ! 0 = tonic"
    "sum_list (map2 interval ps (rotate1 ps)) = 12"
    "scale tonic mode = Inr (map (degree_of ps) [0..<7])"
    by (rule scale_catalog)
  let ?sc = "map (degree_of ps) [0..<7]"
  have "length ?sc = 7"
    by simp
  moreover have "Note.truncate (?sc ! 0) = tonic" "degree (?sc ! 0) = 0"
    using ps(2) by (simp_all add: degree_of_fields)
  moreover have "sum_list (map2 interval ?sc (rotate1 ?sc)) = 12"
    using ps(3) by (simp only: map_degree_of(5) [OF ps(1)])
  ultimately show ?thesis
    using ps(4) by blast
qed

text \<open>The statement of C5 at the tonic F# and the mode Locrian.\<close>

theorem scale_seven_degrees_witness:
  "music_notes ! 6 \<in> set music_notes \<and> modes ! 6 \<in> set modes
   \<and> (\<exists>sc. scale (music_notes ! 6) (modes ! 6) = Inr sc
        \<and> length sc = 7 \<and> Note.truncate (sc ! 0) = music_notes ! 6 \<and> degree (sc ! 0) = 0
        \<and> sum_list (map2 interval sc (rotate1 sc)) = 12)"
proof -
  have t: "music_notes ! 6 \<in> set music_notes"
    by (simp add: music_notes_def)
  have m: "modes ! 6 \<in> set modes"
    by (simp add: modes_def)
  from t m scale_seven_degrees [OF t m] show ?thesis
    by blast
qed

text \<open>
  C8. For every tonic and mode of the catalogs, the 7 entries of \<open>scale\<close> have pairwise
  distinct indices and pairwise distinct names, so a name denotes at most one degree.
\<close>

theorem scale_distinct_pitches:
  assumes "tonic \<in> set music_notes" "mode \<in> set modes"
  shows "\<exists>sc. scale tonic mode = Inr sc \<and> length sc = 7
     \<and> distinct (map index sc) \<and> distinct (map name sc)"
proof -
  from assms obtain ps where ps: "length ps = 7"
    "distinct (map index ps)" "distinct (map name ps)"
    "scale tonic mode = Inr (map (degree_of ps) [0..<7])"
    by (rule scale_catalog)
  let ?sc = "map (degree_of ps) [0..<7]"
  have "distinct (map index ?sc)" "distinct (map name ?sc)"
    using ps(2,3) by (simp_all only: map_degree_of [OF ps(1)])
  moreover have "length ?sc = 7"
    by simp
  ultimately show ?thesis
    using ps(4) by blast
qed

text \<open>The statement of C8 at the tonic D and the mode Dorian.\<close>

theorem scale_distinct_pitches_witness:
  "music_notes ! 2 \<in> set music_notes \<and> modes ! 3 \<in> set modes
   \<and> (\<exists>sc. scale (music_notes ! 2) (modes ! 3) = Inr sc \<and> length sc = 7
        \<and> distinct (map index sc) \<and> distinct (map name sc))"
proof -
  have t: "music_notes ! 2 \<in> set music_notes"
    by (simp add: music_notes_def)
  have m: "modes ! 3 \<in> set modes"
    by (simp add: modes_def)
  from t m scale_distinct_pitches [OF t m] show ?thesis
    by blast
qed

section \<open>appendTriad\<close>

text \<open>
  C9. \<open>appendTriad\<close> (the spec's annotateChord) returns the very array reference it was
  given; the array itself is unchanged and nothing is allocated, so neither the scale
  nor its entries are copied; an object is written only when the array refers to it, and
  only in its field \<open>chordNote\<close>. Reading the scale through the caller's reference
  after the call gives the annotated notes: the caller's scale is modified, as on the
  scale of C major, whose roles are all absent before and are root, third and fifth on C,
  E and G after annotating with the triad C, E, G.
\<close>

theorem appendTriad_in_place:
  "snd (appendTriad h a tr) = a
   \<and> arrays (fst (appendTriad h a tr)) = arrays h
   \<and> next_ref (fst (appendTriad h a tr)) = next_ref h
   \<and> objects (fst (appendTriad h a tr)) r =
       (if r \<in> set (arrays h a) then chordNote_loop tr 0 (objects h r) else objects h r)
   \<and> (objects (fst (appendTriad h a tr)) r)\<lparr>chordNote := chordNote (objects h r)\<rparr> = objects h r
   \<and> read_scale (fst (appendTriad h a tr)) a = map (chordNote_loop tr 0) (read_scale h a)
   \<and> map chordNote (read_scale c_major_heap 0) = [None, None, None, None, None, None, None]
   \<and> map chordNote (read_scale
         (fst (appendTriad c_major_heap 0 (music_notes ! 0, music_notes ! 4, music_notes ! 7))) 0)
       = [Some 0, None, Some 1, None, Some 2, None, None]"
proof -
  have "map chordNote (read_scale c_major_heap 0) = [None, None, None, None, None, None, None]"
    unfolding c_major_heap_read upt7 by (simp add: degree_of_fields)
  moreover have "map chordNote (read_scale
         (fst (appendTriad c_major_heap 0 (music_notes ! 0, music_notes ! 4, music_notes ! 7))) 0)
       = [Some 0, None, Some 1, None, Some 2, None, None]"
    unfolding appendTriad_read c_major_heap_read upt7
    by (simp add: chordNote_loop_value degree_of_fields music_notes_def)
  ultimately show ?thesis
    by (simp add: appendTriad_read appendTriad_objects chordNote_loop_value)
       (simp add: appendTriad_def appendTriad_loop_effect)
qed

text \<open>
  C7, as the spec states it: when several slots of the triad have the same name, a degree
  of that name gets the role of the first such slot. It fails on the scale of C major
  and the triad C, C, G: the degree C matches slots 0 and 1 and ends with role 1, not 0.
\<close>

theorem appendTriad_first_slot_counterexample:
  "1 \<in> set (arrays c_major_heap 0)
   \<and> name (objects c_major_heap 1) = name (slot (music_notes ! 0, music_notes ! 0, music_notes ! 7) 0)
   \<and> name (objects c_major_heap 1) = name (slot (music_notes ! 0, music_notes ! 0, music_notes ! 7) 1)
   \<and> chordNote (objects (fst (appendTriad c_major_heap 0 (music_notes ! 0, music_notes ! 0, music_notes ! 7))) 1) = Some 1
   \<and> chordNote (objects (fst (appendTriad c_major_heap 0 (music_notes ! 0, music_notes ! 0, music_notes ! 7))) 1) \<noteq> Some 0"
  using c_major_heap_fields(2,3)
  by (simp add: appendTriad_objects c_major_heap_fields(1) chordNote_loop_value music_notes_def)

text \<open>
  C7, amended. For every scale and every triad, a degree whose name is that of one or
  more slots of the triad gets the role of the last of these slots, the one of highest
  position: the inner loop goes through all three slots and a later match overwrites an
  earlier one.
\<close>

theorem appendTriad_last_slot:
  assumes "r \<in> set (arrays h a)" "p < 3"
    and "name (objects h r) = name (slot tr p)"
    and "\<forall>q<3. p < q \<longrightarrow> name (objects h r) \<noteq> name (slot tr q)"
  shows "chordNote (objects (fst (appendTriad h a tr)) r) = Some p"
proof -
  let ?n = "objects h r"
  have val: "chordNote (objects (fst (appendTriad h a tr)) r) =
      (if name ?n = name (slot tr 2) then Some 2
       else if name ?n = name (slot tr 1) then Some 1
       else if name ?n = name (slot tr 0) then Some 0
       else chordNote ?n)"
    using assms(1) by (simp add: appendTriad_objects chordNote_loop_value)
  from assms(2) consider "p = 0" | "p = 1" | "p = 2"
    by linarith
  then show ?thesis
  proof cases
    case 1
    have "name ?n \<noteq> name (slot tr 1)" "name ?n \<noteq> name (slot tr 2)"
      using assms(4) [rule_format, of 1] assms(4) [rule_format, of 2] unfolding 1 by simp_all
    with val assms(3) show ?thesis
      unfolding 1 by simp
  next
    case 2
    have "name ?n \<noteq> name (slot tr 2)"
      using assms(4) [rule_format, of 2] unfolding 2 by simp
    with val assms(3) show ?thesis
      unfolding 2 by simp
  next
    case 3
    with val assms(3) show ?thesis
      by simp
  qed
qed

text \<open>
  The amended C7 on the scale of C major and the triad E, E, B: the degree E matches
  slots 0 and 1 and gets role 1.
\<close>

theorem appendTriad_last_slot_witness:
  "3 \<in> set (arrays c_major_heap 0) \<and> (1::nat) < 3
   \<and> name (objects c_major_heap 3) = name (slot (music_notes ! 4, music_notes ! 4, music_notes ! 11) 1)
   \<and> name (objects c_major_heap 3) \<noteq> name (slot (music_notes ! 4, music_notes ! 4, music_notes ! 11) 2)
   \<and> chordNote (objects (fst (appendTriad c_major_heap 0 (music_notes ! 4, music_notes ! 4, music_notes ! 11))) 3) = Some 1"
proof -
  let ?tr = "(music_notes ! 4, music_notes ! 4, music_notes ! 11)"
  have r: "3 \<in> set (arrays c_major_heap 0)"
    by (simp add: c_major_heap_fields(1))
  have p: "(1::nat) < 3"
    by simp
  have m: "name (objects c_major_heap 3) = name (slot ?tr 1)"
    using c_major_heap_fields(2) by (simp add: music_notes_def)
  have n: "name (objects c_major_heap 3) \<noteq> name (slot ?tr 2)"
    using c_major_heap_fields(2) by (simp add: music_notes_def)
  have l: "\<forall>q<3. 1 < q \<longrightarrow> name (objects c_major_heap 3) \<noteq> name (slot ?tr q)"
  proof (intro allI impI)
    fix q :: nat
    assume "q < 3" "1 < q"
    then have "q = 2"
      by simp
    with n show "name (objects c_major_heap 3) \<noteq> name (slot ?tr q)"
      by simp
  qed
  from appendTriad_last_slot [OF r p m l] r p m n show ?thesis
    by simp
qed

text \<open>
  C10. \<open>appendTriad\<close> never clears a role: an object whose name is the name of none of
  the three triad notes is left exactly as it was, its \<open>chordNote\<close> included, so a
  role written by an earlier call stays on a degree the new triad does not cover.
\<close>

theorem appendTriad_keeps_unmatched:
  assumes "name (objects h r) \<noteq> name t0"
    and "name (objects h r) \<noteq> name t1"
    and "name (objects h r) \<noteq> name t2"
  shows "objects (fst (appendTriad h a (t0, t1, t2))) r = objects h r
     \<and> chordNote (objects (fst (appendTriad h a (t0, t1, t2))) r) = chordNote (objects h r)"
  using assms by (simp add: appendTriad_objects chordNote_loop_value)

text \<open>
  C10 on the scale of C major annotated with C, E, G and then with D, F, A: the degree C
  keeps the role 0 of the first call.
\<close>

theorem appendTriad_keeps_unmatched_witness:
  "name (objects (fst (appendTriad c_major_heap 0 (music_notes ! 0, music_notes ! 4, music_notes ! 7))) 1) \<noteq> name (music_notes ! 2)
   \<and> name (objects (fst (appendTriad c_major_heap 0 (music_notes ! 0, music_notes ! 4, music_notes ! 7))) 1) \<noteq> name (music_notes ! 5)
   \<and> name (objects (fst (appendTriad c_major_heap 0 (music_notes ! 0, music_notes ! 4, music_notes ! 7))) 1) \<noteq> name (music_notes ! 9)
   \<and> chordNote (objects (fst (appendTriad c_major_heap 0 (music_notes ! 0, music_notes ! 4, music_notes ! 7))) 1) = Some 0
   \<and> chordNote (objects (fst (appendTriad
          (fst (appendTriad c_major_heap 0 (music_notes ! 0, music_notes ! 4, music_notes ! 7))) 0
          (music_notes ! 2, music_notes ! 5, music_notes ! 9))) 1) = Some 0"
proof -
  let ?h = "fst (appendTriad c_major_heap 0 (music_notes ! 0, music_notes ! 4, music_notes ! 7))"
  have n: "name (objects ?h 1) = ''C''" and c: "chordNote (objects ?h 1) = Some 0"
    using c_major_heap_fields(2,3)
    by (simp_all add: appendTriad_objects c_major_heap_fields(1) chordNote_loop_value music_notes_def)
  have d: "name (objects ?h 1) \<noteq> name (music_notes ! 2)"
    and f: "name (objects ?h 1) \<noteq> name (music_notes ! 5)"
    and a: "name (objects ?h 1) \<noteq> name (music_notes ! 9)"
    unfolding n by (simp_all add: music_notes_def)
  from appendTriad_keeps_unmatched [OF d f a, of 0] d f a c show ?thesis
    by simp
qed

text \<open>
  C6. For every tonic and mode of the catalogs, every store and every degree \<open>d\<close> of the
  freshly built scale, \<open>updateListeners\<close> with the triad of that degree runs
  \<open>appendTriad\<close> on the new scale, and in the resulting scale of 7 degrees a degree has
  role \<open>p\<close> exactly when its name is the name of slot \<open>p\<close> of the triad, has no role
  exactly when its name is that of no slot, and exactly 3 degrees have a role. With no
  triad, \<open>appendTriad\<close> is not run and no degree has a role.
\<close>

theorem appendTriad_fresh_scale:
  assumes "tonic \<in> set music_notes" "mode \<in> set modes" "d < 7"
  shows "\<exists>vs h1 a sc'. scale tonic mode = Inr vs
     \<and> updateListeners \<lparr>currentTonic = tonic, currentMode = mode\<rparr> h (Some (triad (vs ! d)))
         = Inr (h1, tonic, mode, a)
     \<and> (h1, a) = appendTriad (fst (new_scale h vs)) (snd (new_scale h vs)) (triad (vs ! d))
     \<and> sc' = read_scale h1 a \<and> length sc' = 7
     \<and> (\<forall>k<7. \<forall>p<3. (chordNote (sc' ! k) = Some p) = (name (sc' ! k) = name (slot (triad (vs ! d)) p)))
     \<and> (\<forall>k<7. (chordNote (sc' ! k) = None) = (\<forall>p<3. name (sc' ! k) \<noteq> name (slot (triad (vs ! d)) p)))
     \<and> length (filter (\<lambda>n. chordNote n \<noteq> None) sc') = 3
     \<and> (\<exists>h0 a0. updateListeners \<lparr>currentTonic = tonic, currentMode = mode\<rparr> h None
            = Inr (h0, tonic, mode, a0)
          \<and> length (read_scale h0 a0) = 7
          \<and> list_all (\<lambda>n. chordNote n = None) (read_scale h0 a0))"
proof -
  from assms(1,2) obtain ps where ps: "length ps = 7" "distinct (map name ps)"
    and sc: "scale tonic mode = Inr (map (degree_of ps) [0..<7])"
    by (rule scale_catalog)
  define vs where "vs = map (degree_of ps) [0..<7]"
  define tr where "tr = triad (vs ! d)"
  define h1 where "h1 = fst (appendTriad (fst (new_scale h vs)) (next_ref h) tr)"
  define sc' where "sc' = read_scale h1 (next_ref h)"
  define role where "role = (\<lambda>k. if k = (d + 4) mod 7 then Some (2::nat)
                   else if k = (d + 2) mod 7 then Some 1
                   else if k = d then Some 0 else None)"
  note steps = degree_steps [OF assms(3)]
  have vs: "scale tonic mode = Inr vs"
    unfolding vs_def by (rule sc)
  have tr: "tr = (ps ! d, ps ! ((d + 2) mod 7), ps ! ((d + 4) mod 7))"
    unfolding tr_def vs_def using assms(3) by (simp add: degree_of_fields)
  have tr': "tr = triad (degree_of ps d)"
    unfolding tr_def vs_def using assms(3) by simp
  have val: "sc' = map (chordNote_loop tr 0) vs"
    unfolding sc'_def h1_def by (simp only: appendTriad_read read_new_scale)
  have len: "length sc' = 7"
    unfolding val vs_def by simp
  have nth: "sc' ! k = chordNote_loop tr 0 (degree_of ps k)" if "k < 7" for k
    unfolding val vs_def using that by simp
  have inj: "name (ps ! i) = name (ps ! j) \<longleftrightarrow> i = j" if "i < 7" "j < 7" for i j
    using nth_eq_iff_index_eq [OF ps(2), of i j] that ps(1) by simp
  have role: "chordNote (sc' ! k) = role k" and nm: "name (sc' ! k) = name (ps ! k)" if "k < 7" for k
    using annotated_degree [OF ps assms(3) that] unfolding nth [OF that] tr' role_def by simp_all
  have slots: "name (slot tr 0) = name (ps ! d)" "name (slot tr 1) = name (ps ! ((d + 2) mod 7))"
    "name (slot tr 2) = name (ps ! ((d + 4) mod 7))"
    unfolding tr by simp_all
  have r0: "(role k = Some 0) = (k = d)" and r1: "(role k = Some 1) = (k = (d + 2) mod 7)"
    and r2: "(role k = Some 2) = (k = (d + 4) mod 7)"
    and rn: "(role k = None) = (k \<noteq> d \<and> k \<noteq> (d + 2) mod 7 \<and> k \<noteq> (d + 4) mod 7)" for k
    using steps(3,4,5) unfolding role_def by auto
  have A: "\<forall>k<7. \<forall>p<3. (chordNote (sc' ! k) = Some p) = (name (sc' ! k) = name (slot tr p))"
  proof (intro allI impI)
    fix k p :: nat
    assume k: "k < 7" and p: "p < 3"
    from p consider "p = 0" | "p = 1" | "p = 2"
      by linarith
    then show "(chordNote (sc' ! k) = Some p) = (name (sc' ! k) = name (slot tr p))"
    proof cases
      case 1
      show ?thesis
        unfolding 1 role [OF k] nm [OF k] slots r0 using inj [OF k assms(3)] by simp
    next
      case 2
      show ?thesis
        unfolding 2 role [OF k] nm [OF k] slots r1 using inj [OF k steps(1)] by simp
    next
      case 3
      show ?thesis
        unfolding 3 role [OF k] nm [OF k] slots r2 using inj [OF k steps(2)] by simp
    qed
  qed
  have B: "\<forall>k<7. (chordNote (sc' ! k) = None) = (\<forall>p<3. name (sc' ! k) \<noteq> name (slot tr p))"
  proof (intro allI impI)
    fix k :: nat
    assume k: "k < 7"
    have "(\<forall>p<3. name (sc' ! k) \<noteq> name (slot tr p)) =
        (name (sc' ! k) \<noteq> name (slot tr 0) \<and> name (sc' ! k) \<noteq> name (slot tr 1)
         \<and> name (sc' ! k) \<noteq> name (slot tr 2))"
      by (simp add: eval_nat_numeral All_less_Suc conj_ac)
    also have "\<dots> = (k \<noteq> d \<and> k \<noteq> (d + 2) mod 7 \<and> k \<noteq> (d + 4) mod 7)"
      unfolding nm [OF k] slots inj [OF k assms(3)] inj [OF k steps(1)] inj [OF k steps(2)] ..
    finally show "(chordNote (sc' ! k) = None) = (\<forall>p<3. name (sc' ! k) \<noteq> name (slot tr p))"
      unfolding role [OF k] rn by simp
  qed
  have roles: "map chordNote sc' = map role [0..<7]"
    using len by (intro nth_equalityI) (simp_all add: role)
  have "length (filter (\<lambda>n. chordNote n \<noteq> None) sc') =
      length (filter (\<lambda>x. x \<noteq> None) (map chordNote sc'))"
    unfolding filter_map comp_def length_map ..
  also have "\<dots> = length (filter (\<lambda>x. x \<noteq> None) (map role [0..<7]))"
    unfolding roles ..
  also have "\<dots> = 3"
    using role_count [OF assms(3)] unfolding role_def .
  finally have C: "length (filter (\<lambda>n. chordNote n \<noteq> None) sc') = 3" .
  have U: "updateListeners \<lparr>currentTonic = tonic, currentMode = mode\<rparr> h (Some tr)
         = Inr (h1, tonic, mode, next_ref h)"
    unfolding h1_def by (rule updateListeners_value(2) [OF vs])
  have P: "(h1, next_ref h) = appendTriad (fst (new_scale h vs)) (snd (new_scale h vs)) tr"
    unfolding h1_def by (simp add: new_scale_ref appendTriad_def)
  have N: "updateListeners \<lparr>currentTonic = tonic, currentMode = mode\<rparr> h None
         = Inr (fst (new_scale h vs), tonic, mode, next_ref h)"
    by (rule updateListeners_value(1) [OF vs])
  have N7: "length (read_scale (fst (new_scale h vs)) (next_ref h)) = 7"
    unfolding read_new_scale vs_def by simp
  have NN: "list_all (\<lambda>n. chordNote n = None) (read_scale (fst (new_scale h vs)) (next_ref h))"
    unfolding read_new_scale vs_def by (simp add: list_all_iff degree_of_fields)
  show ?thesis
  proof (intro exI conjI)
    show "scale tonic mode = Inr vs"
      by (rule vs)
    show "updateListeners \<lparr>currentTonic = tonic, currentMode = mode\<rparr> h (Some (triad (vs ! d)))
         = Inr (h1, tonic, mode, next_ref h)"
      using U unfolding tr_def .
    show "(h1, next_ref h) = appendTriad (fst (new_scale h vs)) (snd (new_scale h vs)) (triad (vs ! d))"
      using P unfolding tr_def .
    show "sc' = read_scale h1 (next_ref h)"
      by (rule sc'_def)
    show "length sc' = 7"
      by (rule len)
    show "\<forall>k<7. \<forall>p<3. (chordNote (sc' ! k) = Some p) = (name (sc' ! k) = name (slot (triad (vs ! d)) p))"
      using A unfolding tr_def .
    show "\<forall>k<7. (chordNote (sc' ! k) = None) = (\<forall>p<3. name (sc' ! k) \<noteq> name (slot (triad (vs ! d)) p))"
      using B unfolding tr_def .
    show "length (filter (\<lambda>n. chordNote n \<noteq> None) sc') = 3"
      by (rule C)
    show "updateListeners \<lparr>currentTonic = tonic, currentMode = mode\<rparr> h None
         = Inr (fst (new_scale h vs), tonic, mode, next_ref h)"
      by (rule N)
    show "length (read_scale (fst (new_scale h vs)) (next_ref h)) = 7"
      by (rule N7)
    show "list_all (\<lambda>n. chordNote n = None) (read_scale (fst (new_scale h vs)) (next_ref h))"
      by (rule NN)
  qed
qed

text \<open>
  C6 at the tonic C, the mode Major / Ionian, degree 0, the entry 4 of the resulting scale
  and slot 2.
\<close>

theorem appendTriad_fresh_scale_witness:
  "music_notes ! 0 \<in> set music_notes \<and> modes ! 1 \<in> set modes
   \<and> (0::nat) < 7 \<and> (4::nat) < 7 \<and> (2::nat) < 3
   \<and> (\<exists>vs h1 a. scale (music_notes ! 0) (modes ! 1) = Inr vs
        \<and> updateListeners \<lparr>currentTonic = music_notes ! 0, currentMode = modes ! 1\<rparr> heap0
             (Some (triad (vs ! 0))) = Inr (h1, music_notes ! 0, modes ! 1, a)
        \<and> length (read_scale h1 a) = 7
        \<and> (chordNote (read_scale h1 a ! 4) = Some 2)
            = (name (read_scale h1 a ! 4) = name (slot (triad (vs ! 0)) 2))
        \<and> length (filter (\<lambda>n. chordNote n \<noteq> None) (read_scale h1 a)) = 3)"
proof -
  have t: "music_notes ! 0 \<in> set music_notes"
    by (simp add: music_notes_def)
  have m: "modes ! 1 \<in> set modes"
    by (simp add: modes_def)
  have d: "(0::nat) < 7" and k: "(4::nat) < 7" and p: "(2::nat) < 3"
    by simp_all
  from appendTriad_fresh_scale [OF t m d, of heap0] obtain vs h1 a sc' where
    vs: "scale (music_notes ! 0) (modes ! 1) = Inr vs"
    and u: "updateListeners \<lparr>currentTonic = music_notes ! 0, currentMode = modes ! 1\<rparr> heap0
             (Some (triad (vs ! 0))) = Inr (h1, music_notes ! 0, modes ! 1, a)"
    and sc': "sc' = read_scale h1 a" and len: "length sc' = 7"
    and A: "\<forall>k<7. \<forall>p<3. (chordNote (sc' ! k) = Some p) = (name (sc' ! k) = name (slot (triad (vs ! 0)) p))"
    and C: "length (filter (\<lambda>n. chordNote n \<noteq> None) sc') = 3"
    by blast
  from A k p have "(chordNote (sc' ! 4) = Some 2) = (name (sc' ! 4) = name (slot (triad (vs ! 0)) 2))"
    by blast
  with vs u len C t m d k p show ?thesis
    unfolding sc' by blast
qed

end
